theory Spec2Isabelle
  imports Main
begin

section \<open>Strings\<close>

text \<open>
  A Python \<open>str\<close> is a sequence of Unicode code points, so a string is a list of
  natural numbers, one per code point. \<open>ustr\<close> reads an ASCII literal as such a list.
\<close>

type_synonym ustring = "nat list"

definition ustr :: "string \<Rightarrow> ustring" where
  "ustr s = map of_char s"

datatype error =
    StopIteration
  | ValueError
  | IndexError
  | RegexError
  | MalformedRuleError ustring

subsection \<open>\<open>str.strip\<close> and \<open>str.split\<close>\<close>

text \<open>
  \<open>isspace\<close> lists the code points for which Python's \<open>str.isspace\<close> holds;
  \<open>strip\<close> with no argument removes them at both ends.
\<close>

definition isspace :: "nat \<Rightarrow> bool" where
  "isspace c =
     ((9 \<le> c \<and> c \<le> 13) \<or> (28 \<le> c \<and> c \<le> 32) \<or> c = 133 \<or> c = 160 \<or> c = 5760 \<or>
      (8192 \<le> c \<and> c \<le> 8202) \<or> c = 8232 \<or> c = 8233 \<or> c = 8239 \<or> c = 8287 \<or>
      c = 12288)"

definition strip :: "ustring \<Rightarrow> ustring" where
  "strip s = rev (dropWhile isspace (rev (dropWhile isspace s)))"

text \<open>
  \<open>s.split(sep)\<close> scans \<open>s\<close> from the left and cuts at every occurrence of
  \<open>sep\<close>; \<open>cur\<close> is the field being read. An empty separator raises
  \<open>ValueError\<close>.
\<close>

fun split_acc :: "ustring \<Rightarrow> ustring \<Rightarrow> ustring \<Rightarrow> ustring list" where
  "split_acc sep cur [] = [cur]"
| "split_acc sep cur (c # s) =
     (if sep \<noteq> [] \<and> take (length sep) (c # s) = sep
      then cur # split_acc sep [] (drop (length sep) (c # s))
      else split_acc sep (cur @ [c]) s)"

definition split :: "ustring \<Rightarrow> ustring \<Rightarrow> error + ustring list" where
  "split s sep = (if sep = [] then Inl ValueError else Inr (split_acc sep [] s))"

subsection \<open>\<open>collections.deque\<close>\<close>

text \<open>
  A deque is the list of its elements from left to right. \<open>extend\<close> and
  \<open>extendleft\<close> add the elements of their argument one at a time, at the right and
  at the left end.
\<close>

definition deque_append :: "'a list \<Rightarrow> 'a \<Rightarrow> 'a list" where
  "deque_append d x = d @ [x]"

definition deque_appendleft :: "'a list \<Rightarrow> 'a \<Rightarrow> 'a list" where
  "deque_appendleft d x = x # d"

definition deque_extend :: "'a list \<Rightarrow> 'a list \<Rightarrow> 'a list" where
  "deque_extend d xs = foldl deque_append d xs"

definition deque_extendleft :: "'a list \<Rightarrow> 'a list \<Rightarrow> 'a list" where
  "deque_extendleft d xs = foldl deque_appendleft d xs"

subsection \<open>Compiled patterns\<close>

text \<open>
  The pattern library is not part of the repository. A compiled pattern is taken as the
  search the library runs for it: \<open>rx s pos adv\<close> is the leftmost match of the
  pattern in \<open>s\<close> that starts at or after \<open>pos\<close>, where \<open>adv\<close> forbids
  an empty match at \<open>pos\<close> itself. A match has its span in \<open>s\<close> and the
  expansion of a replacement template against its groups.

  \<open>re_search\<close>, \<open>group0\<close> and \<open>re_sub\<close> are the three calls the stemmer makes:
  \<open>a_re.search(token)\<close>, \<open>.group(0)\<close> and \<open>a_re.sub(b, token, count)\<close>, where
  a count of 0 (the default) puts no limit on the number of replacements. \<open>sub_scan\<close>
  is the library's loop for \<open>sub\<close>: it copies the text up to the next match,
  appends the replacement, and goes on behind the match, refusing an empty match right
  where an empty match was just replaced. A span that does not lie in the rest of the
  string is no match of any pattern; the loop stops there. Replacement templates are
  taken to be valid for their pattern.
\<close>

record rmatch =
  m_start :: nat
  m_end :: nat
  m_expand :: "ustring \<Rightarrow> ustring"

type_synonym regex = "ustring \<Rightarrow> nat \<Rightarrow> bool \<Rightarrow> rmatch option"

definition span_ok :: "ustring \<Rightarrow> nat \<Rightarrow> bool \<Rightarrow> rmatch \<Rightarrow> bool" where
  "span_ok s pos adv m =
     (pos \<le> m_start m \<and> m_start m \<le> m_end m \<and> m_end m \<le> length s \<and>
      (pos < m_end m \<or> \<not> adv))"

definition re_search :: "regex \<Rightarrow> ustring \<Rightarrow> rmatch option" where
  "re_search rx s = rx s 0 False"

definition group0 :: "ustring \<Rightarrow> rmatch \<Rightarrow> ustring" where
  "group0 s m = take (m_end m - m_start m) (drop (m_start m) s)"

function sub_scan ::
  "regex \<Rightarrow> ustring \<Rightarrow> ustring \<Rightarrow> nat \<Rightarrow> nat \<Rightarrow> nat \<Rightarrow> bool \<Rightarrow> ustring" where
  "sub_scan rx repl s count n pos adv =
     (if count \<noteq> 0 \<and> count \<le> n then drop pos s
      else
        (case rx s pos adv of
           None \<Rightarrow> drop pos s
         | Some m \<Rightarrow>
             if span_ok s pos adv m
             then take (m_start m - pos) (drop pos s) @ m_expand m repl @
                  sub_scan rx repl s count (Suc n) (m_end m) (m_start m = m_end m)
             else drop pos s))"
  by pat_completeness auto
termination
  by (relation "measure (\<lambda>(rx, repl, s, count, n, pos, adv).
        2 * (length s - pos) + (if adv then 0 else 1))")
     (auto simp: span_ok_def)

declare sub_scan.simps [simp del]

definition re_sub :: "regex \<Rightarrow> ustring \<Rightarrow> ustring \<Rightarrow> nat \<Rightarrow> ustring" where
  "re_sub rx repl s count = sub_scan rx repl s count 0 0 False"

text \<open>
  \<open>class_re\<close> is the stemmer's own pattern \<open>\{\{[A-Z]+\}\}\<close>, and
  \<open>class_re.match(m)\<close> asks whether \<open>m\<close> begins with a class marker: two opening
  braces, one or more capital letters, two closing braces.
\<close>

definition isAZ :: "nat \<Rightarrow> bool" where
  "isAZ c = (65 \<le> c \<and> c \<le> 90)"

definition class_re_match :: "ustring \<Rightarrow> bool" where
  "class_re_match m =
     (take 2 m = ustr ''{{'' \<and> takeWhile isAZ (drop 2 m) \<noteq> [] \<and>
      take 2 (dropWhile isAZ (drop 2 m)) = ustr ''}}'')"

section \<open>The stemmer\<close>

text \<open>
  The class \<open>Stemmer\<close> of \<open>mstem.py\<close>. A name that starts with an underscore
  in the source starts with \<open>u_\<close> here: \<open>u_read_lex\<close>, \<open>u_read_rules\<close>
  and \<open>u_parse\<close> are \<open>_read_lex\<close>, \<open>_read_rules\<close> and \<open>_parse\<close>, and
  \<open>Stemmer_init\<close> is \<open>__init__\<close>. The files are given by their contents; finding
  and opening them is not modelled. A raised exception is the left summand of the result.

  The position of a rule is one of the three strings \<open>delete\<close>, \<open>prefix\<close> and
  \<open>suffix\<close>, and a rule is the tuple of its position, its compiled pattern, its
  replacement and its glosses.
\<close>

datatype pos = Delete | Prefix | Suffix

type_synonym rule = "pos \<times> regex \<times> ustring \<times> ustring list"

subsection \<open>Reading the lexicon\<close>

text \<open>
  A lexicon file is the list of its lines, as iteration over the open file yields them.
  Each line is stripped and split at the delimiter, a string, and its first record joins
  the set. \<open>records[0]\<close> is an indexing and would fail on an empty list of records.
\<close>

definition lex_entry :: "ustring \<Rightarrow> ustring \<Rightarrow> error + ustring" where
  "lex_entry delimiter line =
     (case split (strip line) delimiter of
        Inl e \<Rightarrow> Inl e
      | Inr records \<Rightarrow> (case records of [] \<Rightarrow> Inl IndexError | r # _ \<Rightarrow> Inr r))"

fun read_lex_lines :: "ustring \<Rightarrow> ustring list \<Rightarrow> ustring set \<Rightarrow> error + ustring set" where
  "read_lex_lines delimiter [] lexicon = Inr lexicon"
| "read_lex_lines delimiter (line # f) lexicon =
     (case lex_entry delimiter line of
        Inl e \<Rightarrow> Inl e
      | Inr r \<Rightarrow> read_lex_lines delimiter f (insert r lexicon))"

fun read_lex_files ::
  "ustring \<Rightarrow> ustring list list \<Rightarrow> ustring set \<Rightarrow> error + ustring set" where
  "read_lex_files delimiter [] lexicon = Inr lexicon"
| "read_lex_files delimiter (f # lex_fns) lexicon =
     (case read_lex_lines delimiter f lexicon of
        Inl e \<Rightarrow> Inl e
      | Inr lexicon' \<Rightarrow> read_lex_files delimiter lex_fns lexicon')"

definition u_read_lex :: "ustring list list \<Rightarrow> ustring \<Rightarrow> error + ustring set" where
  "u_read_lex lex_fns delimiter = read_lex_files delimiter lex_fns {}"

subsection \<open>Reading the rules\<close>

text \<open>
  The rule file is the list of the rows the tab-separated reader yields, the header row
  first; \<open>next(reader)\<close> fails on a file without rows, and unpacking a row fails
  unless it has three fields. \<open>nfd\<close> is \<open>normalize('NFD', _)\<close> and \<open>compile\<close> is the library's
  \<open>compile\<close>, which answers \<open>None\<close> where the library rejects the pattern.
  \<open>classify\<close> is the chain of tests on the normalized pattern: \<open>a[:2]\<close> and
  \<open>a[-2:]\<close> are slices and never fail, \<open>a[0]\<close> fails on the empty string.
\<close>

definition classify :: "ustring \<Rightarrow> error + pos" where
  "classify a =
     (if take 2 a = ustr ''{{'' \<and> drop (length a - 2) a = ustr ''}}'' then Inr Delete
      else
        (case a of
           [] \<Rightarrow> Inl IndexError
         | c # _ \<Rightarrow>
             if c = 94 then Inr Prefix
             else if last a = 36 then Inr Suffix
             else Inl (MalformedRuleError a)))"

definition read_rule ::
  "(ustring \<Rightarrow> ustring) \<Rightarrow> (ustring \<Rightarrow> regex option) \<Rightarrow> ustring list \<Rightarrow> error + rule" where
  "read_rule nfd compile line =
     (case line of
        [a, b, glosses] \<Rightarrow>
          (case classify (nfd a) of
             Inl e \<Rightarrow> Inl e
           | Inr pos \<Rightarrow>
               (case compile (nfd a) of
                  None \<Rightarrow> Inl RegexError
                | Some a_re \<Rightarrow> Inr (pos, a_re, nfd b, split_acc (ustr ''.'') [] glosses)))
      | _ \<Rightarrow> Inl ValueError)"

fun read_rule_rows ::
  "(ustring \<Rightarrow> ustring) \<Rightarrow> (ustring \<Rightarrow> regex option) \<Rightarrow> ustring list list \<Rightarrow> rule list \<Rightarrow>
     error + rule list" where
  "read_rule_rows nfd compile [] rules = Inr rules"
| "read_rule_rows nfd compile (line # reader) rules =
     (case read_rule nfd compile line of
        Inl e \<Rightarrow> Inl e
      | Inr r \<Rightarrow> read_rule_rows nfd compile reader (rules @ [r]))"

definition u_read_rules ::
  "(ustring \<Rightarrow> ustring) \<Rightarrow> (ustring \<Rightarrow> regex option) \<Rightarrow> ustring list list \<Rightarrow>
     error + rule list" where
  "u_read_rules nfd compile reader =
     (case reader of
        [] \<Rightarrow> Inl StopIteration
      | header # rest \<Rightarrow> read_rule_rows nfd compile rest [])"

text \<open>The two tables an engine holds once it is constructed.\<close>

record stemmer =
  lexicon :: "ustring set"
  rules :: "rule list"

definition Stemmer_init ::
  "(ustring \<Rightarrow> ustring) \<Rightarrow> (ustring \<Rightarrow> regex option) \<Rightarrow> ustring list list \<Rightarrow>
     ustring list list \<Rightarrow> ustring \<Rightarrow> error + stemmer" where
  "Stemmer_init nfd compile rule_rows lex_fns delimiter =
     (case u_read_lex lex_fns delimiter of
        Inl e \<Rightarrow> Inl e
      | Inr lexi \<Rightarrow>
          (case u_read_rules nfd compile rule_rows of
             Inl e \<Rightarrow> Inl e
           | Inr rs \<Rightarrow> Inr \<lparr>lexicon = lexi, rules = rs\<rparr>))"

subsection \<open>stem\<close>

text \<open>
  The loop of \<open>stem\<close>, one rule per step. The second component counts the calls of
  \<open>a_re.sub\<close>; it is not part of the result of \<open>stem\<close>.
\<close>

fun stem_loop :: "ustring set \<Rightarrow> rule list \<Rightarrow> ustring \<Rightarrow> nat \<Rightarrow> ustring \<times> nat" where
  "stem_loop lexi [] token n = (token, n)"
| "stem_loop lexi ((pos, a_re, b, gl) # rs) token n =
     (if token \<in> lexi then (token, n)
      else stem_loop lexi rs (re_sub a_re b token 0) (Suc n))"

definition stem_run :: "(ustring \<Rightarrow> ustring) \<Rightarrow> stemmer \<Rightarrow> ustring \<Rightarrow> ustring \<times> nat" where
  "stem_run nfd self token = stem_loop (lexicon self) (rules self) (nfd token) 0"

definition stem :: "(ustring \<Rightarrow> ustring) \<Rightarrow> stemmer \<Rightarrow> ustring \<Rightarrow> ustring" where
  "stem nfd self token = fst (stem_run nfd self token)"

subsection \<open>parse and its relatives\<close>

text \<open>
  The state of the loop of \<open>_parse\<close> is the triple it returns: the prefix deque, the
  token and the suffix deque. \<open>parse_body\<close> is the body of the loop behind the
  lexicon test: it records the affix and substitutes when the pattern is found in the
  token, and leaves the state alone otherwise. The counter of \<open>u_parse_loop\<close>
  counts the rules that were tried; \<open>a_re.sub\<close> is called for those of them whose
  pattern is found, which is at most as often.
\<close>

type_synonym pstate = "ustring list \<times> ustring \<times> ustring list"

fun parse_body :: "bool \<Rightarrow> rule \<Rightarrow> pstate \<Rightarrow> pstate" where
  "parse_body gloss (pos, a_re, b, gl) (prefixes, token, suffixes) =
     (case re_search a_re token of
        None \<Rightarrow> (prefixes, token, suffixes)
      | Some mo \<Rightarrow>
          (let m = group0 token mo in
           if \<not> class_re_match m then
             if gloss then
               if pos = Suffix then
                 (prefixes, re_sub a_re b token 1, deque_extendleft suffixes gl)
               else if pos = Prefix then
                 (deque_extend prefixes gl, re_sub a_re b token 1, suffixes)
               else (prefixes, re_sub a_re b token 1, suffixes)
             else
               if pos = Suffix then
                 (prefixes, re_sub a_re b token 1, deque_appendleft suffixes m)
               else if pos = Prefix then
                 (deque_append prefixes m, re_sub a_re b token 1, suffixes)
               else (prefixes, re_sub a_re b token 1, suffixes)
           else (prefixes, re_sub a_re b token 1, suffixes)))"

fun u_parse_loop ::
  "ustring set \<Rightarrow> bool \<Rightarrow> rule list \<Rightarrow> pstate \<Rightarrow> nat \<Rightarrow> pstate \<times> nat" where
  "u_parse_loop lexi gloss [] st n = (st, n)"
| "u_parse_loop lexi gloss (r # rs) (prefixes, token, suffixes) n =
     (if token \<in> lexi then ((prefixes, token, suffixes), n)
      else u_parse_loop lexi gloss rs (parse_body gloss r (prefixes, token, suffixes)) (Suc n))"

definition u_parse_run ::
  "(ustring \<Rightarrow> ustring) \<Rightarrow> stemmer \<Rightarrow> ustring \<Rightarrow> bool \<Rightarrow> pstate \<times> nat" where
  "u_parse_run nfd self token gloss =
     u_parse_loop (lexicon self) gloss (rules self) ([], nfd token, []) 0"

definition u_parse :: "(ustring \<Rightarrow> ustring) \<Rightarrow> stemmer \<Rightarrow> ustring \<Rightarrow> bool \<Rightarrow> pstate" where
  "u_parse nfd self token gloss = fst (u_parse_run nfd self token gloss)"

definition parse :: "(ustring \<Rightarrow> ustring) \<Rightarrow> stemmer \<Rightarrow> ustring \<Rightarrow> bool \<Rightarrow> ustring list" where
  "parse nfd self token gloss =
     (case u_parse nfd self token gloss of
        (prefixes, root, suffixes) \<Rightarrow>
          deque_extend (deque_append (deque_extend [] prefixes) root) suffixes)"

definition parse_wp ::
  "(ustring \<Rightarrow> ustring) \<Rightarrow> stemmer \<Rightarrow> ustring \<Rightarrow> ustring \<times> ustring set" where
  "parse_wp nfd self token =
     (case u_parse nfd self token True of
        (prefixes, root, suffixes) \<Rightarrow>
          (root, set (deque_extend (deque_extend [] prefixes) suffixes)))"

definition segment ::
  "(ustring \<Rightarrow> ustring) \<Rightarrow> stemmer \<Rightarrow> ustring \<Rightarrow> ustring \<times> ustring \<times> ustring" where
  "segment nfd self token =
     (case u_parse nfd self token False of
        (prefixes, root, suffixes) \<Rightarrow> (concat prefixes, root, concat suffixes))"

definition gloss :: "(ustring \<Rightarrow> ustring) \<Rightarrow> stemmer \<Rightarrow> ustring \<Rightarrow> ustring list" where
  "gloss nfd self token = parse nfd self token True"

section \<open>A fragment of the libraries, for running the stemmer\<close>

text \<open>
  The properties of the loops hold for every normalization function and every compiled
  pattern. To run the stemmer on a word, this section fixes a fragment of both libraries.

  \<open>nfd_latin1\<close> replaces each precomposed letter of the Latin-1 Supplement by its
  canonical decomposition (the table is the Unicode Character Database's) and leaves every
  other code point alone. It is NFD on the strings of code points below U+0100, and on
  those strings with combining marks in which every mark follows an ASCII character (no
  reordering of marks is needed there).
\<close>

definition latin1_decomp :: "(nat \<times> ustring) list" where
  "latin1_decomp =
    [(192, [65, 768]), (193, [65, 769]), (194, [65, 770]), (195, [65, 771]),
     (196, [65, 776]), (197, [65, 778]), (199, [67, 807]), (200, [69, 768]),
     (201, [69, 769]), (202, [69, 770]), (203, [69, 776]), (204, [73, 768]),
     (205, [73, 769]), (206, [73, 770]), (207, [73, 776]), (209, [78, 771]),
     (210, [79, 768]), (211, [79, 769]), (212, [79, 770]), (213, [79, 771]),
     (214, [79, 776]), (217, [85, 768]), (218, [85, 769]), (219, [85, 770]),
     (220, [85, 776]), (221, [89, 769]), (224, [97, 768]), (225, [97, 769]),
     (226, [97, 770]), (227, [97, 771]), (228, [97, 776]), (229, [97, 778]),
     (231, [99, 807]), (232, [101, 768]), (233, [101, 769]), (234, [101, 770]),
     (235, [101, 776]), (236, [105, 768]), (237, [105, 769]), (238, [105, 770]),
     (239, [105, 776]), (241, [110, 771]), (242, [111, 768]), (243, [111, 769]),
     (244, [111, 770]), (245, [111, 771]), (246, [111, 776]), (249, [117, 768]),
     (250, [117, 769]), (251, [117, 770]), (252, [117, 776]), (253, [121, 769]),
     (255, [121, 776])]"

definition nfd_latin1 :: "ustring \<Rightarrow> ustring" where
  "nfd_latin1 s =
     concat (map (\<lambda>c. case map_of latin1_decomp c of None \<Rightarrow> [c] | Some d \<Rightarrow> d) s)"

text \<open>
  \<open>compile_lit\<close> compiles the patterns that are a literal text with one anchor:
  \<open>^text\<close>, \<open>text$\<close>, and a class marker \<open>{{NAME}}\<close> with capital letters
  for the name, which the library reads as literal text. The text is not empty and made
  of ASCII letters, digits and hyphens. \<open>^\<close> matches at the start of the string;
  \<open>$\<close> matches at its end and before a line feed that ends it. On every other
  pattern \<open>compile_lit\<close> answers \<open>None\<close>, so that a run which goes through it
  stays in the fragment. A replacement template without a backslash stands for itself.
\<close>

definition plain :: "nat \<Rightarrow> bool" where
  "plain c = ((48 \<le> c \<and> c \<le> 57) \<or> (65 \<le> c \<and> c \<le> 90) \<or> (97 \<le> c \<and> c \<le> 122) \<or> c = 45)"

definition lit_match :: "nat \<Rightarrow> nat \<Rightarrow> rmatch" where
  "lit_match b e = \<lparr>m_start = b, m_end = e, m_expand = (\<lambda>repl. repl)\<rparr>"

definition find_prefix :: "ustring \<Rightarrow> regex" where
  "find_prefix lit s pos adv =
     (if pos = 0 \<and> take (length lit) s = lit then Some (lit_match 0 (length lit)) else None)"

definition find_suffix :: "ustring \<Rightarrow> regex" where
  "find_suffix lit s pos adv =
     (let n = length s; k = length lit in
      if k + 1 \<le> n \<and> pos + k + 1 \<le> n \<and> last s = 10 \<and> take k (drop (n - 1 - k) s) = lit
      then Some (lit_match (n - 1 - k) (n - 1))
      else if k \<le> n \<and> pos + k \<le> n \<and> drop (n - k) s = lit
      then Some (lit_match (n - k) n)
      else None)"

fun first_occ :: "ustring \<Rightarrow> ustring \<Rightarrow> nat option" where
  "first_occ lit [] = None"
| "first_occ lit (c # s) =
     (if take (length lit) (c # s) = lit then Some 0 else map_option Suc (first_occ lit s))"

definition find_literal :: "ustring \<Rightarrow> regex" where
  "find_literal lit s pos adv =
     (case first_occ lit (drop pos s) of
        None \<Rightarrow> None
      | Some i \<Rightarrow> Some (lit_match (pos + i) (pos + i + length lit)))"

definition compile_lit :: "ustring \<Rightarrow> regex option" where
  "compile_lit a =
     (if a \<noteq> [] \<and> hd a = 94 \<and> tl a \<noteq> [] \<and> list_all plain (tl a)
      then Some (find_prefix (tl a))
      else if a \<noteq> [] \<and> last a = 36 \<and> butlast a \<noteq> [] \<and> list_all plain (butlast a)
      then Some (find_suffix (butlast a))
      else if 5 \<le> length a \<and> take 2 a = ustr ''{{'' \<and> drop (length a - 2) a = ustr ''}}'' \<and>
              list_all isAZ (take (length a - 4) (drop 2 a))
      then Some (find_literal a)
      else None)"

section \<open>Every occurrence and the first occurrence\<close>

text \<open>
  The specification speaks of replacing all non-overlapping occurrences of a pattern, or
  only the first one. \<open>occurrences\<close> lists the occurrences of a pattern in a
  string from the left, each one searched behind the one before, and
  \<open>replace_occurrences\<close> rewrites the string with the listed occurrences replaced
  and everything between them kept.
\<close>

function occurrences :: "regex \<Rightarrow> ustring \<Rightarrow> nat \<Rightarrow> bool \<Rightarrow> rmatch list" where
  "occurrences rx s pos adv =
     (case rx s pos adv of
        None \<Rightarrow> []
      | Some m \<Rightarrow>
          if span_ok s pos adv m
          then m # occurrences rx s (m_end m) (m_start m = m_end m)
          else [])"
  by pat_completeness auto
termination
  by (relation "measure (\<lambda>(rx, s, pos, adv).
        2 * (length s - pos) + (if adv then 0 else 1))")
     (auto simp: span_ok_def)

declare occurrences.simps [simp del]

fun replace_occurrences :: "ustring \<Rightarrow> ustring \<Rightarrow> nat \<Rightarrow> rmatch list \<Rightarrow> ustring" where
  "replace_occurrences repl s pos [] = drop pos s"
| "replace_occurrences repl s pos (m # ms) =
     take (m_start m - pos) (drop pos s) @ m_expand m repl @
     replace_occurrences repl s (m_end m) ms"

section \<open>Inputs of the examples\<close>

text \<open>
  The rule files and words of the examples. A rule file starts with its header row; a
  lexicon line ends with a line feed (code point 10). \<open>cafe_pre\<close> spells its last
  letter with the precomposed U+00E9, \<open>cafe_dec\<close> with \<open>e\<close> and the combining
  acute accent U+0301.
\<close>

definition tab :: ustring where
  "tab = [9]"

definition header_row :: "ustring list" where
  "header_row = [ustr ''pattern'', ustr ''replacement'', ustr ''glosses'']"

definition walk_rows :: "ustring list list" where
  "walk_rows = [header_row, [ustr ''s$'', [], ustr ''PL''], [ustr ''ed$'', [], ustr ''PST'']]"

definition un_rows :: "ustring list list" where
  "un_rows =
     [header_row, [ustr ''^un-'', [], ustr ''neg''], [ustr ''^un-'', ustr ''X'', ustr ''other'']]"

definition agr_rows :: "ustring list list" where
  "agr_rows = [header_row, [ustr ''s$'', [], ustr ''3.SG'']]"

definition class_rows :: "ustring list list" where
  "class_rows = [header_row, [ustr ''{{V}}'', ustr ''a'', ustr ''V'']]"

definition caf_rows :: "ustring list list" where
  "caf_rows = [header_row, [ustr ''^caf'', ustr ''X'', ustr ''G'']]"

definition cafe_pre :: ustring where
  "cafe_pre = ustr ''caf'' @ [233]"

definition cafe_dec :: ustring where
  "cafe_dec = ustr ''cafe'' @ [769]"

section \<open>Properties of the two loops\<close>

subsection \<open>The number of substitutions\<close>

lemma stem_loop_count: "snd (stem_loop lexi rs token n) \<le> n + length rs"
  by (induction lexi rs token n rule: stem_loop.induct) auto

lemma stem_loop_exit:
  "snd (stem_loop lexi rs token n) = n + length rs \<or> fst (stem_loop lexi rs token n) \<in> lexi"
  by (induction lexi rs token n rule: stem_loop.induct) auto

lemma u_parse_loop_count: "snd (u_parse_loop lexi g rs st n) \<le> n + length rs"
  by (induction lexi g rs st n rule: u_parse_loop.induct) auto

lemma u_parse_loop_exit:
  "snd (u_parse_loop lexi g rs st n) = n + length rs \<or>
   fst (snd (fst (u_parse_loop lexi g rs st n))) \<in> lexi"
  by (induction lexi g rs st n rule: u_parse_loop.induct) auto

text \<open>
  Claim C9. For every token and every rule table of length R, the loop of \<open>stem\<close> and
  the loop of \<open>_parse\<close> try at most R rules, so they call the substitution at most R
  times, and they end: either all R rules were tried, or the token that is returned is in
  the lexicon. Both loops are total functions, by recursion on the rule table. With an
  empty rule table \<open>stem\<close> returns the normalized token.
\<close>

theorem rewrite_loop_bound:
  "snd (stem_run nfd self token) \<le> length (rules self) \<and>
   (snd (stem_run nfd self token) = length (rules self) \<or> stem nfd self token \<in> lexicon self) \<and>
   snd (u_parse_run nfd self token g) \<le> length (rules self) \<and>
   (snd (u_parse_run nfd self token g) = length (rules self) \<or>
    fst (snd (u_parse nfd self token g)) \<in> lexicon self) \<and>
   stem nfd \<lparr>lexicon = lexi, rules = []\<rparr> token = nfd token"
proof -
  have a: "snd (stem_run nfd self token) \<le> length (rules self)"
    using stem_loop_count [of "lexicon self" "rules self" "nfd token" 0]
    by (simp add: stem_run_def)
  have b: "snd (stem_run nfd self token) = length (rules self) \<or>
           stem nfd self token \<in> lexicon self"
    using stem_loop_exit [of "lexicon self" "rules self" "nfd token" 0]
    by (simp add: stem_run_def stem_def)
  have c: "snd (u_parse_run nfd self token g) \<le> length (rules self)"
    using u_parse_loop_count [of "lexicon self" g "rules self" "([], nfd token, [])" 0]
    by (simp add: u_parse_run_def)
  have d: "snd (u_parse_run nfd self token g) = length (rules self) \<or>
           fst (snd (u_parse nfd self token g)) \<in> lexicon self"
    using u_parse_loop_exit [of "lexicon self" g "rules self" "([], nfd token, [])" 0]
    by (simp add: u_parse_run_def u_parse_def)
  have e: "stem nfd \<lparr>lexicon = lexi, rules = []\<rparr> token = nfd token"
    by (simp add: stem_def stem_run_def)
  from a b c d e show ?thesis by blast
qed

subsection \<open>Deques and substitutions\<close>

lemma deque_extend_eq: "deque_extend d xs = d @ xs"
  unfolding deque_extend_def by (induction xs arbitrary: d) (simp_all add: deque_append_def)

lemma deque_extendleft_eq: "deque_extendleft d xs = rev xs @ d"
  unfolding deque_extendleft_def by (induction xs arbitrary: d) (simp_all add: deque_appendleft_def)

lemma sub_scan_occurrences:
  "sub_scan rx repl s count n pos adv =
     replace_occurrences repl s pos
       (if count = 0 then occurrences rx s pos adv
        else take (count - n) (occurrences rx s pos adv))"
proof (induction rx repl s count n pos adv rule: sub_scan.induct)
  case (1 rx repl s count n pos adv)
  show ?case
  proof (cases "count \<noteq> 0 \<and> count \<le> n")
    case True
    then show ?thesis by (simp add: sub_scan.simps [of rx repl s count n pos adv])
  next
    case False
    show ?thesis
    proof (cases "rx s pos adv")
      case None
      with False show ?thesis
        by (simp add: sub_scan.simps [of rx repl s count n pos adv]
            occurrences.simps [of rx s pos adv])
    next
      case (Some m)
      show ?thesis
      proof (cases "span_ok s pos adv m")
        case ok: True
        have ih: "sub_scan rx repl s count (Suc n) (m_end m) (m_start m = m_end m) =
          replace_occurrences repl s (m_end m)
            (if count = 0 then occurrences rx s (m_end m) (m_start m = m_end m)
             else take (count - Suc n) (occurrences rx s (m_end m) (m_start m = m_end m)))"
          using "1.IH" [OF False Some ok] .
        have tk: "count \<noteq> 0 \<Longrightarrow> count - n = Suc (count - Suc n)"
          using False by arith
        show ?thesis
          using False Some ok ih tk
          by (simp add: sub_scan.simps [of rx repl s count n pos adv]
              occurrences.simps [of rx s pos adv])
      next
        case False2: False
        with False Some show ?thesis
          by (simp add: sub_scan.simps [of rx repl s count n pos adv]
              occurrences.simps [of rx s pos adv])
      qed
    qed
  qed
qed

lemma re_sub_all: "re_sub rx repl s 0 = replace_occurrences repl s 0 (occurrences rx s 0 False)"
  by (simp add: re_sub_def sub_scan_occurrences)

lemma re_sub_first:
  "re_sub rx repl s 1 = replace_occurrences repl s 0 (take 1 (occurrences rx s 0 False))"
  by (simp add: re_sub_def sub_scan_occurrences)

lemma re_sub_no_match: "re_search rx s = None \<Longrightarrow> re_sub rx repl s count = s"
  by (simp add: re_search_def re_sub_def sub_scan.simps [of rx repl s count 0 0 False])

lemma parse_body_token:
  "fst (snd (parse_body g (pos, a_re, b, gl) (P, token, S))) = re_sub a_re b token 1"
  by (simp add: Let_def re_sub_no_match split: option.splits)

text \<open>
  Claim C4. For every rule and every token, the substitution \<open>stem\<close> makes when it
  applies the rule replaces every occurrence of the pattern in the token (all the
  non-overlapping occurrences, from the left), and the substitution the traversal of
  \<open>_parse\<close> makes (the one \<open>parse\<close>, \<open>gloss\<close>, \<open>parse_wp\<close> and
  \<open>segment\<close> share) replaces the first occurrence only. A rule is applied when the
  token is not in the lexicon.
\<close>

theorem substitution_scope:
  "token \<notin> lexi \<Longrightarrow>
   stem_loop lexi ((pos, a_re, b, gl) # rs) token n =
     stem_loop lexi rs (replace_occurrences b token 0 (occurrences a_re token 0 False)) (Suc n) \<and>
   u_parse_loop lexi g ((pos, a_re, b, gl) # rs) (P, token, S) n =
     u_parse_loop lexi g rs (parse_body g (pos, a_re, b, gl) (P, token, S)) (Suc n) \<and>
   fst (snd (parse_body g (pos, a_re, b, gl) (P, token, S))) =
     replace_occurrences b token 0 (take 1 (occurrences a_re token 0 False))"
proof -
  assume out: "token \<notin> lexi"
  have every: "re_sub a_re b token 0 =
      replace_occurrences b token 0 (occurrences a_re token 0 False)"
    by (rule re_sub_all)
  have first: "re_sub a_re b token 1 =
      replace_occurrences b token 0 (take 1 (occurrences a_re token 0 False))"
    by (rule re_sub_first)
  have s: "stem_loop lexi ((pos, a_re, b, gl) # rs) token n =
      stem_loop lexi rs (replace_occurrences b token 0 (occurrences a_re token 0 False)) (Suc n)"
    using out every by simp
  have p: "u_parse_loop lexi g ((pos, a_re, b, gl) # rs) (P, token, S) n =
      u_parse_loop lexi g rs (parse_body g (pos, a_re, b, gl) (P, token, S)) (Suc n)"
    using out by simp
  have t: "fst (snd (parse_body g (pos, a_re, b, gl) (P, token, S))) =
      replace_occurrences b token 0 (take 1 (occurrences a_re token 0 False))"
    using first by (simp only: parse_body_token)
  from s p t show ?thesis by blast
qed

lemma class_rules_read:
  "u_read_rules nfd_latin1 compile_lit class_rows =
     Inr [(Delete, find_literal (ustr ''{{V}}''), ustr ''a'', [ustr ''V''])]"
  by (simp add: u_read_rules_def class_rows_def header_row_def read_rule_def classify_def
      compile_lit_def nfd_latin1_def latin1_decomp_def ustr_def isAZ_def plain_def)

theorem substitution_scope_witness:
  "ustr ''x{{V}}y{{V}}'' \<notin> {} \<and>
   stem_loop {} [(Delete, find_literal (ustr ''{{V}}''), ustr ''a'', [ustr ''V''])]
     (ustr ''x{{V}}y{{V}}'') 0 = (ustr ''xaya'', 1) \<and>
   fst (snd (parse_body False (Delete, find_literal (ustr ''{{V}}''), ustr ''a'', [ustr ''V''])
     ([], ustr ''x{{V}}y{{V}}'', []))) = ustr ''xay{{V}}''"
proof -
  show ?thesis
    using substitution_scope [of "ustr ''x{{V}}y{{V}}''" "{}" Delete
        "find_literal (ustr ''{{V}}'')" "ustr ''a''" "[ustr ''V'']" "[]" 0 False "[]" "[]"]
    by (simp add: occurrences.simps find_literal_def ustr_def span_ok_def lit_match_def)
qed

subsection \<open>The order of the affixes\<close>

lemma stem_loop_in_lexicon: "token \<in> lexi \<Longrightarrow> stem_loop lexi rs token n = (token, n)"
  by (cases rs) auto

lemma u_parse_loop_in_lexicon:
  "token \<in> lexi \<Longrightarrow> u_parse_loop lexi g rs (P, token, S) n = ((P, token, S), n)"
  by (cases rs) auto

lemma parse_body_frame:
  "parse_body g r (P, token, S) =
     (case parse_body g r ([], token, []) of (p, t, s) \<Rightarrow> (P @ p, t, s @ S))"
  by (cases r)
     (simp add: Let_def deque_extend_eq deque_extendleft_eq deque_append_def
        deque_appendleft_def split: option.splits)

lemma u_parse_loop_frame:
  "u_parse_loop lexi g rs (P, token, S) n =
     (case u_parse_loop lexi g rs ([], token, []) n of
        ((p, t, s), k) \<Rightarrow> ((P @ p, t, s @ S), k))"
proof (induction rs arbitrary: P token S n)
  case Nil
  show ?case by simp
next
  case (Cons r rs)
  show ?case
  proof (cases "token \<in> lexi")
    case True
    then show ?thesis by simp
  next
    case False
    obtain p t s where b0: "parse_body g r ([], token, []) = (p, t, s)"
      by (cases "parse_body g r ([], token, [])") auto
    have b1: "parse_body g r (P, token, S) = (P @ p, t, s @ S)"
      using parse_body_frame [of g r P token S] b0 by simp
    obtain p' t' s' k where l0: "u_parse_loop lexi g rs ([], t, []) (Suc n) = ((p', t', s'), k)"
      by (cases "u_parse_loop lexi g rs ([], t, []) (Suc n)") auto
    have l1: "u_parse_loop lexi g rs (P @ p, t, s @ S) (Suc n) = (((P @ p) @ p', t', s' @ s @ S), k)"
      using Cons.IH [of "P @ p" t "s @ S" "Suc n"] l0 by simp
    have l2: "u_parse_loop lexi g rs (p, t, s) (Suc n) = ((p @ p', t', s' @ s), k)"
      using Cons.IH [of p t s "Suc n"] l0 by simp
    show ?thesis using False b0 b1 l1 l2 by simp
  qed
qed

lemma u_parse_loop_append:
  "u_parse_loop lexi g (rs1 @ rs2) st n =
     (case u_parse_loop lexi g rs1 st n of (st1, n1) \<Rightarrow> u_parse_loop lexi g rs2 st1 n1)"
proof (induction rs1 arbitrary: st n)
  case Nil
  show ?case by simp
next
  case (Cons r rs1)
  obtain P token S where st: "st = (P, token, S)" by (cases st) auto
  show ?case
    using Cons.IH by (simp add: st u_parse_loop_in_lexicon)
qed

lemma u_parse_loop_split:
  "u_parse_loop lexi g (rs1 @ rs2) ([], token, []) 0 =
     (case u_parse_loop lexi g rs1 ([], token, []) 0 of
        ((P1, t1, S1), n1) \<Rightarrow>
          (case u_parse_loop lexi g rs2 ([], t1, []) n1 of
             ((P2, t2, S2), n2) \<Rightarrow> ((P1 @ P2, t2, S2 @ S1), n2)))"
proof -
  obtain P1 t1 S1 n1 where a: "u_parse_loop lexi g rs1 ([], token, []) 0 = ((P1, t1, S1), n1)"
    by (cases "u_parse_loop lexi g rs1 ([], token, []) 0") auto
  show ?thesis
    using u_parse_loop_frame [of lexi g rs2 P1 t1 S1 n1]
    by (simp add: u_parse_loop_append a split: prod.splits)
qed

lemma parse_eq:
  "parse nfd self token g = (case u_parse nfd self token g of (P, t, S) \<Rightarrow> P @ [t] @ S)"
  by (simp add: parse_def deque_extend_eq deque_append_def split: prod.splits)

lemma walk_rules_read:
  "u_read_rules nfd_latin1 compile_lit walk_rows =
     Inr [(Suffix, find_suffix (ustr ''s''), [], [ustr ''PL'']),
          (Suffix, find_suffix (ustr ''ed''), [], [ustr ''PST''])]"
  by (simp add: u_read_rules_def walk_rows_def header_row_def read_rule_def classify_def
      compile_lit_def nfd_latin1_def latin1_decomp_def ustr_def isAZ_def plain_def)

lemmas lit_eval = re_search_def re_sub_def sub_scan.simps group0_def span_ok_def lit_match_def
  find_suffix_def find_prefix_def find_literal_def class_re_match_def
  deque_append_def deque_appendleft_def deque_extend_def deque_extendleft_def

lemma walkeds_parse:
  assumes "ustr ''walk'' \<in> lexi" "ustr ''walked'' \<notin> lexi" "ustr ''walkeds'' \<notin> lexi"
  shows "parse nfd_latin1 \<lparr>lexicon = lexi, rules = [(Suffix, find_suffix (ustr ''s''), [], [ustr ''PL'']),
          (Suffix, find_suffix (ustr ''ed''), [], [ustr ''PST''])]\<rparr> (ustr ''walkeds'') False =
     [ustr ''walk'', ustr ''ed'', ustr ''s'']"
  using assms
  by (simp add: parse_def u_parse_def u_parse_run_def nfd_latin1_def latin1_decomp_def ustr_def
      lit_eval)

lemma u_parse_loop_counter:
  "u_parse_loop lexi g rs st n = (case u_parse_loop lexi g rs st 0 of (st', k) \<Rightarrow> (st', n + k))"
proof (induction rs arbitrary: st n)
  case Nil
  show ?case by simp
next
  case (Cons r rs)
  obtain P token S where st: "st = (P, token, S)" by (cases st) auto
  show ?case
  proof (cases "token \<in> lexi")
    case True
    then show ?thesis by (simp add: st)
  next
    case False
    have a: "u_parse_loop lexi g rs (parse_body g r (P, token, S)) (Suc n) =
      (case u_parse_loop lexi g rs (parse_body g r (P, token, S)) 0 of
         (st', k) \<Rightarrow> (st', Suc n + k))"
      using Cons.IH [of "parse_body g r (P, token, S)" "Suc n"] .
    have b: "u_parse_loop lexi g rs (parse_body g r (P, token, S)) (Suc 0) =
      (case u_parse_loop lexi g rs (parse_body g r (P, token, S)) 0 of
         (st', k) \<Rightarrow> (st', Suc 0 + k))"
      using Cons.IH [of "parse_body g r (P, token, S)" "Suc 0"] .
    show ?thesis using False a b by (simp add: st split: prod.splits)
  qed
qed

text \<open>
  Claim C3. With the rules \<open>s$\<close> and \<open>ed$\<close> in that order, both with an
  empty replacement, and \<open>walk\<close> in the lexicon, \<open>parse\<close> turns
  \<open>walkeds\<close> into \<open>walk\<close>, \<open>ed\<close>, \<open>s\<close>: the suffix matched last
  stands first among the suffixes. The word needs both rules, so neither \<open>walkeds\<close>
  nor \<open>walked\<close> is in the lexicon. In general \<open>parse\<close> returns the prefixes,
  the stem and the suffixes in this order, and what the later rules of a table contribute
  stands behind the earlier rules' prefixes and in front of the earlier rules' suffixes.
\<close>

theorem affix_order:
  "(ustr ''walk'' \<in> lexi \<and> ustr ''walked'' \<notin> lexi \<and> ustr ''walkeds'' \<notin> lexi \<longrightarrow>
      (case u_read_rules nfd_latin1 compile_lit walk_rows of
         Inl e \<Rightarrow> False
       | Inr rs \<Rightarrow>
           parse nfd_latin1 \<lparr>lexicon = lexi, rules = rs\<rparr> (ustr ''walkeds'') False =
             [ustr ''walk'', ustr ''ed'', ustr ''s''])) \<and>
   parse nfd self token g =
     (case u_parse nfd self token g of (P, t, S) \<Rightarrow> P @ [t] @ S) \<and>
   u_parse nfd \<lparr>lexicon = lexi', rules = rs1 @ rs2\<rparr> token g =
     (case u_parse nfd \<lparr>lexicon = lexi', rules = rs1\<rparr> token g of
        (P1, t1, S1) \<Rightarrow>
          (case fst (u_parse_loop lexi' g rs2 ([], t1, []) 0) of
             (P2, t2, S2) \<Rightarrow> (P1 @ P2, t2, S2 @ S1)))"
proof -
  have a: "ustr ''walk'' \<in> lexi \<and> ustr ''walked'' \<notin> lexi \<and> ustr ''walkeds'' \<notin> lexi \<longrightarrow>
      (case u_read_rules nfd_latin1 compile_lit walk_rows of
         Inl e \<Rightarrow> False
       | Inr rs \<Rightarrow>
           parse nfd_latin1 \<lparr>lexicon = lexi, rules = rs\<rparr> (ustr ''walkeds'') False =
             [ustr ''walk'', ustr ''ed'', ustr ''s''])"
    by (simp only: walk_rules_read sum.case) (use walkeds_parse in blast)
  have c: "u_parse nfd \<lparr>lexicon = lexi', rules = rs1 @ rs2\<rparr> token g =
     (case u_parse nfd \<lparr>lexicon = lexi', rules = rs1\<rparr> token g of
        (P1, t1, S1) \<Rightarrow>
          (case fst (u_parse_loop lexi' g rs2 ([], t1, []) 0) of
             (P2, t2, S2) \<Rightarrow> (P1 @ P2, t2, S2 @ S1)))"
  proof -
    obtain P1 t1 S1 n1 where
      l1: "u_parse_loop lexi' g rs1 ([], nfd token, []) 0 = ((P1, t1, S1), n1)"
      by (cases "u_parse_loop lexi' g rs1 ([], nfd token, []) 0") auto
    obtain P2 t2 S2 n2 where
      l2: "u_parse_loop lexi' g rs2 ([], t1, []) 0 = ((P2, t2, S2), n2)"
      by (cases "u_parse_loop lexi' g rs2 ([], t1, []) 0") auto
    have l3: "u_parse_loop lexi' g rs2 ([], t1, []) n1 = ((P2, t2, S2), n1 + n2)"
      using u_parse_loop_counter [of lexi' g rs2 "([], t1, [])" n1] l2 by simp
    show ?thesis
      using u_parse_loop_split [of lexi' g rs1 rs2 "nfd token"] l1 l2 l3
      by (simp add: u_parse_def u_parse_run_def)
  qed
  from a parse_eq [of nfd self token g] c show ?thesis by blast
qed

theorem affix_order_witness:
  "ustr ''walk'' \<in> {ustr ''walk''} \<and> ustr ''walked'' \<notin> {ustr ''walk''} \<and>
   ustr ''walkeds'' \<notin> {ustr ''walk''} \<and>
   (case Stemmer_init nfd_latin1 compile_lit walk_rows [[ustr ''walk'' @ [10]]] tab of
      Inl e \<Rightarrow> False
    | Inr self \<Rightarrow>
        lexicon self = {ustr ''walk''} \<and>
        parse nfd_latin1 self (ustr ''walkeds'') False = [ustr ''walk'', ustr ''ed'', ustr ''s''])"
proof -
  have lx: "u_read_lex [[ustr ''walk'' @ [10]]] tab = Inr {ustr ''walk''}"
    by (simp add: u_read_lex_def lex_entry_def split_def strip_def isspace_def tab_def ustr_def)
  have m: "ustr ''walk'' \<in> {ustr ''walk''} \<and> ustr ''walked'' \<notin> {ustr ''walk''} \<and>
    ustr ''walkeds'' \<notin> {ustr ''walk''}"
    by (simp add: ustr_def)
  from affix_order [of "{ustr ''walk''}"] m
  have p: "case u_read_rules nfd_latin1 compile_lit walk_rows of
      Inl e \<Rightarrow> False
    | Inr rs \<Rightarrow>
        parse nfd_latin1 \<lparr>lexicon = {ustr ''walk''}, rules = rs\<rparr> (ustr ''walkeds'') False =
          [ustr ''walk'', ustr ''ed'', ustr ''s'']"
    by blast
  from p m show ?thesis
    by (simp add: Stemmer_init_def lx walk_rules_read)
qed

subsection \<open>Glosses of a suffix\<close>

lemmas nfd_eval = nfd_latin1_def latin1_decomp_def
lemmas read_eval = u_read_rules_def header_row_def read_rule_def classify_def
      compile_lit_def nfd_latin1_def latin1_decomp_def ustr_def isAZ_def plain_def
lemmas lex_eval = u_read_lex_def lex_entry_def split_def strip_def isspace_def tab_def ustr_def

text \<open>
  What the body of the loop does with the glosses of a suffix rule in gloss mode:
  \<open>extendleft\<close> pushes them to the front of the suffix deque one at a time, so
  that the deque afterwards begins with the glosses in reverse order. The push is made
  when the pattern is found and the matched text does not begin with a class marker.
\<close>

lemma parse_body_gloss_suffix:
  "re_search a_re token = Some mo \<Longrightarrow> \<not> class_re_match (group0 token mo) \<Longrightarrow>
   parse_body True (Suffix, a_re, b, gl) (P, token, S) =
     (P, re_sub a_re b token 1, rev gl @ S)"
proof -
  assume m: "re_search a_re token = Some mo"
    and c: "\<not> class_re_match (group0 token mo)"
  have "parse_body True (Suffix, a_re, b, gl) (P, token, S) =
      (P, re_sub a_re b token 1, deque_extendleft S gl)"
    using m c by simp
  also have "deque_extendleft S gl = rev gl @ S"
    by (rule deque_extendleft_eq)
  finally show ?thesis .
qed

lemma agr_rules_read:
  "u_read_rules nfd_latin1 compile_lit agr_rows =
     Inr [(Suffix, find_suffix (ustr ''s''), [], [ustr ''3'', ustr ''SG''])]"
  by (simp add: agr_rows_def read_eval)

text \<open>
  Claim C2. In gloss mode a suffix rule that matches is to push its glosses to the front
  of the suffix accumulator in their own order, \<open>g\<^sub>1, \<dots>, g\<^sub>n\<close>, followed by the
  previous contents. The code does not: with the rule \<open>s$\<close> glossed \<open>3.SG\<close>,
  \<open>gloss\<close> turns \<open>walks\<close> into \<open>walk\<close>, \<open>SG\<close>, \<open>3\<close>, and on a deque that
  holds \<open>PL\<close> the body of the loop leaves \<open>SG\<close>, \<open>3\<close>, \<open>PL\<close>. A prefix
  rule with the same glosses keeps their order.
\<close>

theorem suffix_glosses_reversed:
  "(case Stemmer_init nfd_latin1 compile_lit agr_rows [] tab of
      Inl e \<Rightarrow> False
    | Inr self \<Rightarrow>
        rules self = [(Suffix, find_suffix (ustr ''s''), [], [ustr ''3'', ustr ''SG''])] \<and>
        u_parse nfd_latin1 self (ustr ''walks'') True = ([], ustr ''walk'', [ustr ''SG'', ustr ''3'']) \<and>
        gloss nfd_latin1 self (ustr ''walks'') = [ustr ''walk'', ustr ''SG'', ustr ''3'']) \<and>
   parse_body True (Suffix, find_suffix (ustr ''s''), [], [ustr ''3'', ustr ''SG''])
     ([], ustr ''walks'', [ustr ''PL'']) =
     ([], ustr ''walk'', [ustr ''SG'', ustr ''3'', ustr ''PL'']) \<and>
   parse_body True (Prefix, find_prefix (ustr ''un-''), [], [ustr ''3'', ustr ''SG''])
     ([ustr ''PL''], ustr ''un-do'', []) =
     ([ustr ''PL'', ustr ''3'', ustr ''SG''], ustr ''do'', [])"
  by (simp add: Stemmer_init_def u_read_lex_def agr_rules_read gloss_def parse_def u_parse_def
      u_parse_run_def nfd_eval lit_eval ustr_def)

subsection \<open>Tokens of the lexicon\<close>

text \<open>
  Claim C5, amended. For every token whose normalized form is in the lexicon, and any
  rule table, \<open>stem\<close> returns the normalized token and \<open>parse\<close> returns the list
  of the normalized token alone; no substitution is made. A token that is in normal form
  already is returned as it is.
\<close>

theorem lexical_token_unchanged:
  "nfd token \<in> lexicon self \<Longrightarrow>
   stem nfd self token = nfd token \<and> snd (stem_run nfd self token) = 0 \<and>
   parse nfd self token g = [nfd token] \<and> snd (u_parse_run nfd self token g) = 0 \<and>
   (nfd token = token \<longrightarrow> stem nfd self token = token \<and> parse nfd self token g = [token])"
proof -
  assume m: "nfd token \<in> lexicon self"
  have s: "stem_run nfd self token = (nfd token, 0)"
    using m by (simp add: stem_run_def stem_loop_in_lexicon)
  have p: "u_parse_run nfd self token g = (([], nfd token, []), 0)"
    using m by (simp add: u_parse_run_def u_parse_loop_in_lexicon)
  have q: "parse nfd self token g = [nfd token]"
    using p by (simp add: parse_eq u_parse_def)
  from s p q show ?thesis by (simp add: stem_def)
qed

theorem lexical_token_unchanged_witness:
  "nfd_latin1 cafe_dec = cafe_dec \<and>
   nfd_latin1 cafe_dec \<in>
     lexicon \<lparr>lexicon = {cafe_dec},
              rules = [(Prefix, find_prefix (ustr ''caf''), ustr ''X'', [ustr ''G''])]\<rparr> \<and>
   stem nfd_latin1
     \<lparr>lexicon = {cafe_dec},
      rules = [(Prefix, find_prefix (ustr ''caf''), ustr ''X'', [ustr ''G''])]\<rparr> cafe_dec =
     cafe_dec \<and>
   parse nfd_latin1
     \<lparr>lexicon = {cafe_dec},
      rules = [(Prefix, find_prefix (ustr ''caf''), ustr ''X'', [ustr ''G''])]\<rparr> cafe_dec False =
     [cafe_dec] \<and>
   stem nfd_latin1
     \<lparr>lexicon = {cafe_dec},
      rules = [(Prefix, find_prefix (ustr ''caf''), ustr ''X'', [ustr ''G''])]\<rparr> cafe_pre =
     cafe_dec"
proof -
  let ?self = "\<lparr>lexicon = {cafe_dec},
      rules = [(Prefix, find_prefix (ustr ''caf''), ustr ''X'', [ustr ''G''])]\<rparr>"
  have n: "nfd_latin1 cafe_dec = cafe_dec"
    by (simp add: nfd_eval cafe_dec_def ustr_def)
  have n': "nfd_latin1 cafe_pre = cafe_dec"
    by (simp add: nfd_eval cafe_pre_def cafe_dec_def ustr_def)
  have m: "nfd_latin1 cafe_dec \<in> lexicon ?self"
    by (simp add: n)
  have m': "nfd_latin1 cafe_pre \<in> lexicon ?self"
    by (simp add: n')
  from lexical_token_unchanged [where nfd = nfd_latin1 and token = cafe_dec and g = False, OF m]
    lexical_token_unchanged [where nfd = nfd_latin1 and token = cafe_pre and g = False, OF m']
    n n' m
  show ?thesis by simp
qed

text \<open>
  A token of the lexicon that is not in normal form is not returned unchanged: with the
  precomposed spelling in the lexicon file and no rule at all, \<open>stem\<close> returns the
  decomposed spelling.
\<close>

theorem lexical_token_unchanged_counterexample:
  "(case Stemmer_init nfd_latin1 compile_lit [header_row] [[cafe_pre @ [10]]] tab of
      Inl e \<Rightarrow> False
    | Inr self \<Rightarrow>
        cafe_pre \<in> lexicon self \<and> rules self = [] \<and>
        stem nfd_latin1 self cafe_pre = cafe_dec \<and>
        parse nfd_latin1 self cafe_pre False = [cafe_dec]) \<and>
   cafe_dec \<noteq> cafe_pre"
  by (simp add: Stemmer_init_def lex_eval u_read_rules_def cafe_pre_def cafe_dec_def
      stem_def stem_run_def parse_def u_parse_def u_parse_run_def nfd_eval lit_eval)

lemma un_rules_read:
  "u_read_rules nfd_latin1 compile_lit un_rows =
     Inr [(Prefix, find_prefix (ustr ''un-''), [], [ustr ''neg'']),
          (Prefix, find_prefix (ustr ''un-''), ustr ''X'', [ustr ''other''])]"
  by (simp add: un_rows_def read_eval)

text \<open>
  Claim C6, amended. With the rule table \<open>^un-\<close> to nothing, then \<open>^un-\<close> to
  \<open>X\<close>, and a lexicon that holds \<open>happy\<close> and not \<open>un-happy\<close>,
  \<open>stem\<close> turns \<open>un-happy\<close>, spelt with the hyphen the patterns ask for, into
  \<open>happy\<close> with one substitution, whatever rules follow the first one: once the
  token is in the lexicon the loop halts and no further rule is tried.
\<close>

theorem un_rule_order:
  "ustr ''happy'' \<in> lexi \<Longrightarrow> ustr ''un-happy'' \<notin> lexi \<Longrightarrow>
   u_read_rules nfd_latin1 compile_lit un_rows =
     Inr [(Prefix, find_prefix (ustr ''un-''), [], [ustr ''neg'']),
          (Prefix, find_prefix (ustr ''un-''), ustr ''X'', [ustr ''other''])] \<and>
   stem_run nfd_latin1
     \<lparr>lexicon = lexi, rules = (Prefix, find_prefix (ustr ''un-''), [], [ustr ''neg'']) # rs\<rparr>
     (ustr ''un-happy'') = (ustr ''happy'', 1) \<and>
   stem nfd_latin1
     \<lparr>lexicon = lexi, rules = (Prefix, find_prefix (ustr ''un-''), [], [ustr ''neg'']) # rs\<rparr>
     (ustr ''un-happy'') = ustr ''happy''"
proof -
  assume h: "ustr ''happy'' \<in> lexi" and u: "ustr ''un-happy'' \<notin> lexi"
  have n: "nfd_latin1 (ustr ''un-happy'') = ustr ''un-happy''"
    by (simp add: nfd_eval ustr_def)
  have s: "re_sub (find_prefix (ustr ''un-'')) [] (ustr ''un-happy'') 0 = ustr ''happy''"
    by (simp add: re_sub_def sub_scan.simps find_prefix_def span_ok_def lit_match_def ustr_def)
  have r: "stem_run nfd_latin1
     \<lparr>lexicon = lexi, rules = (Prefix, find_prefix (ustr ''un-''), [], [ustr ''neg'']) # rs\<rparr>
     (ustr ''un-happy'') = (ustr ''happy'', 1)"
    using h u by (simp add: stem_run_def n s stem_loop_in_lexicon)
  from r un_rules_read show ?thesis by (simp add: stem_def)
qed

theorem un_rule_order_witness:
  "ustr ''happy'' \<in> {ustr ''happy''} \<and> ustr ''un-happy'' \<notin> {ustr ''happy''} \<and>
   (case Stemmer_init nfd_latin1 compile_lit un_rows [[ustr ''happy'' @ [10]]] tab of
      Inl e \<Rightarrow> False
    | Inr self \<Rightarrow>
        lexicon self = {ustr ''happy''} \<and>
        stem_run nfd_latin1 self (ustr ''un-happy'') = (ustr ''happy'', 1))"
proof -
  have lx: "u_read_lex [[ustr ''happy'' @ [10]]] tab = Inr {ustr ''happy''}"
    by (simp add: lex_eval)
  have a: "ustr ''happy'' \<in> {ustr ''happy''}" by simp
  have b: "ustr ''un-happy'' \<notin> {ustr ''happy''}" by (simp add: ustr_def)
  from un_rule_order [OF a b, of "[(Prefix, find_prefix (ustr ''un-''), ustr ''X'', [ustr ''other''])]"] a b
  show ?thesis
    by (simp add: Stemmer_init_def lx)
qed

text \<open>
  The word \<open>unhappy\<close> has no hyphen: neither pattern matches it, both rules are tried
  and \<open>stem\<close> returns the word as it came.
\<close>

theorem un_rule_order_counterexample:
  "(case Stemmer_init nfd_latin1 compile_lit un_rows [[ustr ''happy'' @ [10]]] tab of
      Inl e \<Rightarrow> False
    | Inr self \<Rightarrow>
        ustr ''happy'' \<in> lexicon self \<and>
        stem_run nfd_latin1 self (ustr ''unhappy'') = (ustr ''unhappy'', 2)) \<and>
   ustr ''unhappy'' \<noteq> ustr ''happy''"
  by (simp add: Stemmer_init_def lex_eval un_rules_read [unfolded ustr_def] stem_run_def nfd_eval
      lit_eval)

subsection \<open>Loading the lexicon\<close>

lemma split_acc_nonempty: "split_acc sep cur s \<noteq> []"
  by (induction sep cur s rule: split_acc.induct) auto

lemma lex_entry_total:
  "delimiter \<noteq> [] \<Longrightarrow>
   lex_entry delimiter line = Inr (hd (split_acc delimiter [] (strip line)))"
  using split_acc_nonempty [of delimiter "[]" "strip line"]
  by (simp add: lex_entry_def split_def split: list.splits)

lemma lex_entry_blank: "delimiter \<noteq> [] \<Longrightarrow> strip line = [] \<Longrightarrow> lex_entry delimiter line = Inr []"
  by (simp add: lex_entry_def split_def)

lemma read_lex_lines_total:
  "delimiter \<noteq> [] \<Longrightarrow>
   read_lex_lines delimiter f acc =
     Inr (acc \<union> (\<lambda>line. hd (split_acc delimiter [] (strip line))) ` set f)"
  by (induction f arbitrary: acc) (auto simp: lex_entry_total)

lemma read_lex_files_total:
  "delimiter \<noteq> [] \<Longrightarrow>
   read_lex_files delimiter lex_fns acc =
     Inr (acc \<union> (\<lambda>line. hd (split_acc delimiter [] (strip line))) ` set (concat lex_fns))"
  by (induction lex_fns arbitrary: acc) (auto simp: read_lex_lines_total)

lemma split_acc_first:
  "\<exists>rest. cur @ s = hd (split_acc sep cur s) @ rest \<and>
          (rest = [] \<or> take (length sep) rest = sep)"
proof (induction sep cur s rule: split_acc.induct)
  case (1 sep cur)
  show ?case by simp
next
  case (2 sep cur c s)
  show ?case
  proof (cases "sep \<noteq> [] \<and> take (length sep) (c # s) = sep")
    case True
    then show ?thesis by simp
  next
    case False
    from "2.IH"(2) [OF False] obtain rest where
      "(cur @ [c]) @ s = hd (split_acc sep (cur @ [c]) s) @ rest \<and>
       (rest = [] \<or> take (length sep) rest = sep)"
      by blast
    with False show ?thesis by auto
  qed
qed

text \<open>
  Claim C7, amended. Lexicon loading raises no error when the delimiter is not empty:
  splitting yields at least one record for every line, so each line contributes an
  entry, the first record of the stripped line, and the lexicon is the set of these
  entries. The first record is the stripped line up to its end or up to a delimiter. No
  line is ignored; a line that is empty once stripped contributes the empty string.
\<close>

theorem lexicon_loading:
  "delimiter \<noteq> [] \<Longrightarrow>
   (\<forall>line. split_acc delimiter [] (strip line) \<noteq> [] \<and>
           lex_entry delimiter line = Inr (hd (split_acc delimiter [] (strip line))) \<and>
           (\<exists>rest. strip line = hd (split_acc delimiter [] (strip line)) @ rest \<and>
                   (rest = [] \<or> take (length delimiter) rest = delimiter))) \<and>
   (\<forall>line. strip line = [] \<longrightarrow> lex_entry delimiter line = Inr []) \<and>
   u_read_lex lex_fns delimiter =
     Inr ((\<lambda>line. hd (split_acc delimiter [] (strip line))) ` set (concat lex_fns))"
proof -
  assume d: "delimiter \<noteq> []"
  have a: "\<forall>line. split_acc delimiter [] (strip line) \<noteq> [] \<and>
           lex_entry delimiter line = Inr (hd (split_acc delimiter [] (strip line))) \<and>
           (\<exists>rest. strip line = hd (split_acc delimiter [] (strip line)) @ rest \<and>
                   (rest = [] \<or> take (length delimiter) rest = delimiter))"
  proof
    fix line
    have "\<exists>rest. [] @ strip line = hd (split_acc delimiter [] (strip line)) @ rest \<and>
                (rest = [] \<or> take (length delimiter) rest = delimiter)"
      by (rule split_acc_first)
    then show "split_acc delimiter [] (strip line) \<noteq> [] \<and>
           lex_entry delimiter line = Inr (hd (split_acc delimiter [] (strip line))) \<and>
           (\<exists>rest. strip line = hd (split_acc delimiter [] (strip line)) @ rest \<and>
                   (rest = [] \<or> take (length delimiter) rest = delimiter))"
      using d by (simp add: split_acc_nonempty lex_entry_total)
  qed
  have b: "\<forall>line. strip line = [] \<longrightarrow> lex_entry delimiter line = Inr []"
    using d by (simp add: lex_entry_blank)
  have c: "u_read_lex lex_fns delimiter =
     Inr ((\<lambda>line. hd (split_acc delimiter [] (strip line))) ` set (concat lex_fns))"
    using d by (simp add: u_read_lex_def read_lex_files_total)
  from a b c show ?thesis by blast
qed

theorem lexicon_loading_witness:
  "tab \<noteq> [] \<and>
   hd (split_acc tab [] (strip (ustr ''walk'' @ tab @ ustr ''verb'' @ [10]))) = ustr ''walk'' \<and>
   hd (split_acc tab [] (strip (ustr ''  '' @ [10]))) = [] \<and>
   u_read_lex [[ustr ''walk'' @ tab @ ustr ''verb'' @ [10]], [ustr ''  '' @ [10]]] tab =
     Inr {ustr ''walk'', []}"
proof -
  have t: "tab \<noteq> []" by (simp add: tab_def)
  have e1: "hd (split_acc tab [] (strip (ustr ''walk'' @ tab @ ustr ''verb'' @ [10]))) =
      ustr ''walk''"
    by (simp add: strip_def isspace_def tab_def ustr_def)
  have e2: "hd (split_acc tab [] (strip (ustr ''  '' @ [10]))) = []"
    by (simp add: strip_def isspace_def tab_def ustr_def)
  from lexicon_loading [OF t,
      of "[[ustr ''walk'' @ tab @ ustr ''verb'' @ [10]], [ustr ''  '' @ [10]]]"]
  have r: "u_read_lex [[ustr ''walk'' @ tab @ ustr ''verb'' @ [10]], [ustr ''  '' @ [10]]] tab =
      Inr ((\<lambda>line. hd (split_acc tab [] (strip line))) `
        set (concat [[ustr ''walk'' @ tab @ ustr ''verb'' @ [10]], [ustr ''  '' @ [10]]]))"
    by blast
  from r t e1 e2 show ?thesis by simp
qed

text \<open>
  An empty line is not ignored: it adds the empty string to the lexicon.
\<close>

theorem lexicon_loading_counterexample:
  "u_read_lex [[ustr ''walk'' @ [10]]] tab = Inr {ustr ''walk''} \<and>
   u_read_lex [[ustr ''walk'' @ [10], [10]]] tab = Inr {[], ustr ''walk''} \<and>
   [] \<notin> {ustr ''walk''}"
  by (simp add: lex_eval)

lemma caf_rules_read:
  "u_read_rules nfd_latin1 compile_lit caf_rows =
     Inr [(Prefix, find_prefix (ustr ''caf''), ustr ''X'', [ustr ''G''])]"
  by (simp add: caf_rows_def read_eval)

text \<open>
  Claim C1. A token and a lexicon entry that are equal after canonical decomposition are
  to be treated as equal by the lexicon test. The token is normalized, the entries are
  stored as the file spells them. With the decomposed spelling in the lexicon file, the
  loop halts at once on \<open>cafe_dec\<close>; with the precomposed spelling in the file,
  the same token is not found, and the rule \<open>^caf\<close> is applied to it.
\<close>

theorem lexicon_not_normalized:
  "nfd_latin1 cafe_pre = nfd_latin1 cafe_dec \<and> cafe_pre \<noteq> cafe_dec \<and>
   (case Stemmer_init nfd_latin1 compile_lit caf_rows [[cafe_dec @ [10]]] tab of
      Inl e \<Rightarrow> False
    | Inr self \<Rightarrow>
        lexicon self = {cafe_dec} \<and>
        stem_run nfd_latin1 self cafe_dec = (cafe_dec, 0) \<and>
        parse nfd_latin1 self cafe_dec False = [cafe_dec]) \<and>
   (case Stemmer_init nfd_latin1 compile_lit caf_rows [[cafe_pre @ [10]]] tab of
      Inl e \<Rightarrow> False
    | Inr self \<Rightarrow>
        lexicon self = {cafe_pre} \<and>
        stem_run nfd_latin1 self cafe_dec = (ustr ''X'' @ [101, 769], 1) \<and>
        parse nfd_latin1 self cafe_dec False = [ustr ''caf'', ustr ''X'' @ [101, 769]])"
  by (simp add: Stemmer_init_def lex_eval caf_rules_read [unfolded ustr_def] cafe_pre_def
      cafe_dec_def stem_run_def parse_def u_parse_def u_parse_run_def nfd_eval lit_eval)

subsection \<open>Loading the rules\<close>

lemma read_rule_rows_append:
  "read_rule_rows nfd compile (xs @ ys) acc =
     (case read_rule_rows nfd compile xs acc of
        Inl e \<Rightarrow> Inl e
      | Inr acc' \<Rightarrow> read_rule_rows nfd compile ys acc')"
  by (induction xs arbitrary: acc) (auto split: sum.splits)

lemma read_rule_rows_fail:
  "read_rule nfd compile row = Inl e \<Longrightarrow> row \<in> set rows \<Longrightarrow>
   \<exists>e'. read_rule_rows nfd compile rows acc = Inl e'"
  by (induction rows arbitrary: acc) (auto split: sum.splits)

lemma classify_empty: "classify [] = Inl IndexError"
  by (simp add: classify_def ustr_def)

lemma read_rule_empty_pattern:
  "nfd a = [] \<Longrightarrow> read_rule nfd compile [a, b, glosses] = Inl IndexError"
  by (simp add: read_rule_def classify_empty)

lemma classify_unanchored:
  "a \<noteq> [] \<Longrightarrow> \<not> (take 2 a = ustr ''{{'' \<and> drop (length a - 2) a = ustr ''}}'') \<Longrightarrow>
   hd a \<noteq> 94 \<Longrightarrow> last a \<noteq> 36 \<Longrightarrow> classify a = Inl (MalformedRuleError a)"
  by (cases a) (auto simp: classify_def)

text \<open>
  A pattern that is not empty and has none of the three anchors is refused with
  \<open>MalformedRuleError\<close> when its row is reached, and no rule table is returned
  whatever rows stand before and behind it.
\<close>

lemma unanchored_pattern_rejected:
  assumes "nfd a \<noteq> []"
    and "\<not> (take 2 (nfd a) = ustr ''{{'' \<and> drop (length (nfd a) - 2) (nfd a) = ustr ''}}'')"
    and "hd (nfd a) \<noteq> 94" and "last (nfd a) \<noteq> 36"
  shows "(\<forall>rs. u_read_rules nfd compile (header # before @ [a, b, glosses] # after) \<noteq> Inr rs) \<and>
         (\<forall>rs0. read_rule_rows nfd compile before [] = Inr rs0 \<longrightarrow>
            u_read_rules nfd compile (header # before @ [a, b, glosses] # after) =
              Inl (MalformedRuleError (nfd a)))"
proof -
  have r: "read_rule nfd compile [a, b, glosses] = Inl (MalformedRuleError (nfd a))"
    using classify_unanchored [OF assms] by (simp add: read_rule_def)
  have "\<exists>e'. read_rule_rows nfd compile (before @ [a, b, glosses] # after) [] = Inl e'"
    using read_rule_rows_fail [OF r, of "before @ [a, b, glosses] # after" "[]"] by simp
  then have x: "\<forall>rs. u_read_rules nfd compile (header # before @ [a, b, glosses] # after) \<noteq> Inr rs"
    by (auto simp: u_read_rules_def)
  have y: "\<forall>rs0. read_rule_rows nfd compile before [] = Inr rs0 \<longrightarrow>
            u_read_rules nfd compile (header # before @ [a, b, glosses] # after) =
              Inl (MalformedRuleError (nfd a))"
    by (simp add: u_read_rules_def read_rule_rows_append r)
  from x y show ?thesis by blast
qed

text \<open>
  Claim C10. If a row behind the header has the empty pattern, construction fails: the
  classification of the empty pattern reads its first character and ends with
  \<open>IndexError\<close>, not with \<open>MalformedRuleError\<close>. No rule table and no engine is
  returned, and \<open>IndexError\<close> is the error of the construction when the rows before
  that row are read without error.
\<close>

theorem empty_pattern_index_error:
  "nfd a = [] \<Longrightarrow>
   classify (nfd a) = Inl IndexError \<and>
   (\<forall>rs. u_read_rules nfd compile (header # before @ [a, b, glosses] # after) \<noteq> Inr rs) \<and>
   (\<forall>self. Stemmer_init nfd compile (header # before @ [a, b, glosses] # after) lex_fns delimiter
            \<noteq> Inr self) \<and>
   (\<forall>rs0. read_rule_rows nfd compile before [] = Inr rs0 \<longrightarrow>
      u_read_rules nfd compile (header # before @ [a, b, glosses] # after) = Inl IndexError)"
proof -
  assume e: "nfd a = []"
  have r: "read_rule nfd compile [a, b, glosses] = Inl IndexError"
    using e by (rule read_rule_empty_pattern)
  have "\<exists>e'. read_rule_rows nfd compile (before @ [a, b, glosses] # after) [] = Inl e'"
    using read_rule_rows_fail [OF r, of "before @ [a, b, glosses] # after" "[]"] by simp
  then have x: "\<forall>rs. u_read_rules nfd compile (header # before @ [a, b, glosses] # after) \<noteq> Inr rs"
    by (auto simp: u_read_rules_def)
  have z: "\<forall>self. Stemmer_init nfd compile (header # before @ [a, b, glosses] # after) lex_fns
      delimiter \<noteq> Inr self"
    using x by (auto simp: Stemmer_init_def split: sum.splits)
  have y: "\<forall>rs0. read_rule_rows nfd compile before [] = Inr rs0 \<longrightarrow>
            u_read_rules nfd compile (header # before @ [a, b, glosses] # after) = Inl IndexError"
    by (simp add: u_read_rules_def read_rule_rows_append r)
  from e x y z show ?thesis by (simp add: classify_empty)
qed

theorem empty_pattern_index_error_witness:
  "nfd_latin1 [] = [] \<and>
   read_rule_rows nfd_latin1 compile_lit [[ustr ''s$'', [], ustr ''PL'']] [] =
     Inr [(Suffix, find_suffix (ustr ''s''), [], [ustr ''PL''])] \<and>
   u_read_rules nfd_latin1 compile_lit
     [header_row, [ustr ''s$'', [], ustr ''PL''], [[], ustr ''x'', ustr ''PST'']] = Inl IndexError"
proof -
  have n: "nfd_latin1 [] = []" by (simp add: nfd_latin1_def)
  have b: "read_rule_rows nfd_latin1 compile_lit [[ustr ''s$'', [], ustr ''PL'']] [] =
     Inr [(Suffix, find_suffix (ustr ''s''), [], [ustr ''PL''])]"
    by (simp add: read_eval)
  from empty_pattern_index_error [where nfd = nfd_latin1 and a = "[]" and compile = compile_lit
      and header = header_row and before = "[[ustr ''s$'', [], ustr ''PL'']]" and after = "[]"
      and b = "ustr ''x''" and glosses = "ustr ''PST''", OF n] b n
  show ?thesis by simp
qed

text \<open>
  Claim C8. A pattern with none of the three anchors is to be refused with
  \<open>MalformedRuleError\<close>. The empty pattern has none of them, and the construction
  ends with \<open>IndexError\<close> for it; the pattern \<open>happy\<close> is refused with
  \<open>MalformedRuleError\<close>, as \<open>unanchored_pattern_rejected\<close> shows for every
  pattern that is not empty.
\<close>

theorem empty_pattern_not_malformed:
  "u_read_rules nfd_latin1 compile_lit [header_row, [[], [], ustr ''PL'']] = Inl IndexError \<and>
   Stemmer_init nfd_latin1 compile_lit [header_row, [[], [], ustr ''PL'']] [] tab = Inl IndexError \<and>
   u_read_rules nfd_latin1 compile_lit [header_row, [ustr ''happy'', [], ustr ''PL'']] =
     Inl (MalformedRuleError (ustr ''happy''))"
  by (simp add: Stemmer_init_def u_read_lex_def read_eval)

end
